theory Spec2Isabelle
  imports Complex_Main
begin

section \<open>Errors and scores\<close>

text \<open>
  The Python exceptions that the packing core can raise. \<open>NameError\<close> is the unbound global
  name read in \<open>insertTopRightCornerDistance\<close>; \<open>TypeError\<close> and \<open>AttributeError\<close> arise from
  a \<open>None\<close> where a list or a bin is expected.
\<close>

datatype error =
    ValueError
  | RuntimeError
  | ZeroDivisionError
  | NameError
  | TypeError
  | AttributeError

text \<open>
  The numbers held in the score fields and in the distance search. Floating-point
  arithmetic is idealised as exact real arithmetic, and a value is kept in the form in
  which the code produces it: a Python integer, the square root \<open>math.sqrt(n)\<close> of an
  integer, its negation, or \<open>float('inf')\<close>. Comparisons are then decided on integers.
\<close>

datatype pynum = IntNum int | Sqrt int | NegSqrt int | PInf

text \<open>
  The real number that a finite value stands for, and the condition under which a square
  root is one: \<open>math.sqrt\<close> raises on a negative argument, and the code only takes the
  root of a sum of two squares.
\<close>

fun num_val :: "pynum \<Rightarrow> real option" where
  "num_val (IntNum i) = Some (real_of_int i)"
| "num_val (Sqrt n) = Some (sqrt (real_of_int n))"
| "num_val (NegSqrt n) = Some (- sqrt (real_of_int n))"
| "num_val PInf = None"

fun radicand_ok :: "pynum \<Rightarrow> bool" where
  "radicand_ok (Sqrt n) = (0 \<le> n)"
| "radicand_ok (NegSqrt n) = (0 \<le> n)"
| "radicand_ok a = True"

text \<open>Unary minus, on the finite values.\<close>

fun num_neg :: "pynum \<Rightarrow> pynum" where
  "num_neg (IntNum i) = IntNum (- i)"
| "num_neg (Sqrt n) = NegSqrt n"
| "num_neg (NegSqrt n) = Sqrt n"
| "num_neg PInf = PInf"

text \<open>The comparison \<open><\<close> of Python numbers.\<close>

fun num_less :: "pynum \<Rightarrow> pynum \<Rightarrow> bool" where
  "num_less PInf b = False"
| "num_less a PInf = True"
| "num_less (IntNum i) (IntNum j) = (i < j)"
| "num_less (IntNum i) (Sqrt n) = (i < 0 \<or> i * i < n)"
| "num_less (Sqrt n) (IntNum i) = (0 < i \<and> n < i * i)"
| "num_less (IntNum i) (NegSqrt n) = (i < 0 \<and> n < i * i)"
| "num_less (NegSqrt n) (IntNum i) = (0 < i \<or> i * i < n)"
| "num_less (Sqrt m) (Sqrt n) = (m < n)"
| "num_less (NegSqrt m) (NegSqrt n) = (n < m)"
| "num_less (Sqrt m) (NegSqrt n) = False"
| "num_less (NegSqrt m) (Sqrt n) = (0 < m \<or> 0 < n)"

text \<open>The comparison \<open>==\<close> of Python numbers: equality of the values.\<close>

definition num_eq :: "pynum \<Rightarrow> pynum \<Rightarrow> bool" where
  "num_eq a b = (\<not> num_less a b \<and> \<not> num_less b a)"

section \<open>rect.py\<close>

text \<open>
  The fields of class \<open>Rect\<close>. The fields \<open>x\<close> and \<open>y\<close> are named \<open>xpos\<close> and \<open>ypos\<close>,
  and \<open>_id\<close> is \<open>rectid\<close>.
\<close>

record rect =
  width :: int
  height :: int
  area :: int
  score1 :: pynum
  score2 :: pynum
  xpos :: int
  ypos :: int
  rectid :: int

definition Rect :: "int \<Rightarrow> int \<Rightarrow> rect" where
  "Rect w h = \<lparr> width = w, height = h, area = w * h, score1 = PInf, score2 = PInf,
                xpos = - 1, ypos = - 1, rectid = - 1 \<rparr>"

definition rotate_rect :: "rect \<Rightarrow> rect" where
  "rotate_rect r = r\<lparr> width := height r, height := width r \<rparr>"

definition isDegenerate :: "rect \<Rightarrow> bool" where
  "isDegenerate r = (width r = 0 \<or> height r = 0)"

definition isReadyForPacking :: "rect \<Rightarrow> bool" where
  "isReadyForPacking r = (xpos r \<noteq> - 1 \<and> ypos r \<noteq> - 1)"

definition removePackingInfo :: "rect \<Rightarrow> rect" where
  "removePackingInfo r = r\<lparr> xpos := - 1, ypos := - 1, score1 := PInf, score2 := PInf \<rparr>"

definition isContainedIn :: "rect \<Rightarrow> rect \<Rightarrow> bool" where
  "isContainedIn s r =
     (xpos s \<ge> xpos r \<and> ypos s \<ge> ypos r
      \<and> xpos s + width s \<le> xpos r + width r
      \<and> ypos s + height s \<le> ypos r + height r)"

definition computeCommonLength :: "int \<Rightarrow> int \<Rightarrow> int \<Rightarrow> int \<Rightarrow> int" where
  "computeCommonLength start1 end1 start2 end2 =
     (if start2 \<ge> end1 \<or> end2 \<le> start1 then 0
      else min end1 end2 - max start1 start2)"

text \<open>
  \<open>Rect.isOverlapping\<close>: an \<open>if\<close>/\<open>elif\<close>/\<open>else\<close> chain whose first two branches fall through
  to the final \<open>return False\<close> when their inner test fails.
\<close>

definition Rect_isOverlapping :: "rect \<Rightarrow> rect \<Rightarrow> bool" where
  "Rect_isOverlapping s r =
     (if \<not> (xpos s \<ge> xpos r + width r \<or> xpos s + width s \<le> xpos r) then
        (if computeCommonLength (ypos s) (ypos s + height s) (ypos r) (ypos r + height r) > 0
         then True else False)
      else if \<not> (ypos s \<ge> ypos r + height r \<or> ypos s + height s \<le> ypos r) then
        (if computeCommonLength (xpos s) (xpos s + width s) (xpos r) (xpos r + width r) > 0
         then True else False)
      else False)"

text \<open>\<open>Bin.isOverlapping\<close> of bin.py, which reads no field of the bin.\<close>

definition Bin_isOverlapping :: "rect \<Rightarrow> rect \<Rightarrow> bool" where
  "Bin_isOverlapping rect1 rect2 =
     (let horizSkip = (xpos rect1 \<ge> xpos rect2 + width rect2 \<or> xpos rect1 + width rect1 \<le> xpos rect2);
          vertSkip = (ypos rect1 \<ge> ypos rect2 + height rect2 \<or> ypos rect1 + height rect1 \<le> ypos rect2)
      in \<not> (horizSkip \<or> vertSkip))"

text \<open>
  The specification's wording of the overlap test: the open extents of the two rectangles
  intersect on the horizontal and on the vertical axis.
\<close>

definition interiors_intersect :: "rect \<Rightarrow> rect \<Rightarrow> bool" where
  "interiors_intersect a b =
     (max (xpos a) (xpos b) < min (xpos a + width a) (xpos b + width b)
      \<and> max (ypos a) (ypos b) < min (ypos a + height a) (ypos b + height b))"

text \<open>The rectangles touch without overlapping: one ends on an axis where the other begins.\<close>

definition merely_touching :: "rect \<Rightarrow> rect \<Rightarrow> bool" where
  "merely_touching a b =
     (xpos a + width a = xpos b \<or> xpos b + width b = xpos a
      \<or> ypos a + height a = ypos b \<or> ypos b + height b = ypos a)"

section \<open>bin.py\<close>

datatype PackingHeuristic = BestAreaFit | TouchingPerimeter | TopRightCornerDistance

text \<open>
  The fields of class \<open>Bin\<close>. \<open>packHeur\<close> is \<open>None\<close> until the first evaluation; a
  heuristic argument is a \<open>PackingHeuristic option\<close> as well, \<open>None\<close> standing for a value
  that is none of the three members of the enumeration.
\<close>

record bin =
  binWidth :: int
  binHeight :: int
  occupiedArea :: int
  touchingPerimeter :: int
  packedRects :: "rect list"
  freeRects :: "rect list"
  canRotate :: bool
  packHeur :: "PackingHeuristic option"

definition Bin :: "int \<Rightarrow> int \<Rightarrow> bin" where
  "Bin w h = \<lparr> binWidth = w, binHeight = h, occupiedArea = 0, touchingPerimeter = 0,
               packedRects = [], freeRects = [], canRotate = False, packHeur = None \<rparr>"

definition packRect :: "bin \<Rightarrow> rect \<Rightarrow> bin" where
  "packRect b r = b\<lparr> packedRects := packedRects b @ [r],
                      occupiedArea := occupiedArea b + width r * height r \<rparr>"

definition isEmpty :: "bin \<Rightarrow> bool" where
  "isEmpty b = (length (packedRects b) = 0)"

text \<open>The body of the loop over the packed items in \<open>computeTouchingPerimeter\<close>.\<close>

definition touching_step :: "int \<Rightarrow> int \<Rightarrow> int \<Rightarrow> int \<Rightarrow> int \<Rightarrow> rect \<Rightarrow> int" where
  "touching_step x y w h perimeter r =
     (let p1 = (if xpos r + width r = x \<or> x + w = xpos r
                then perimeter + computeCommonLength y (y + h) (ypos r) (ypos r + height r)
                else perimeter)
      in (if ypos r = y + h \<or> ypos r + height r = y
          then p1 + computeCommonLength x (x + w) (xpos r) (xpos r + width r)
          else p1))"

definition computeTouchingPerimeter :: "bin \<Rightarrow> int \<Rightarrow> int \<Rightarrow> int \<Rightarrow> int \<Rightarrow> int" where
  "computeTouchingPerimeter b x y w h =
     (let p0 = 0;
          p1 = (if x = 0 \<or> x + w = binWidth b then p0 + h else p0);
          p2 = (if y = 0 \<or> y + h = binHeight b then p1 + w else p1)
      in foldl (touching_step x y w h) p2 (packedRects b))"

definition computeDistance :: "int \<Rightarrow> int \<Rightarrow> int \<Rightarrow> int \<Rightarrow> pynum" where
  "computeDistance x1 y1 x2 y2 = Sqrt ((x1 - x2) * (x1 - x2) + (y1 - y2) * (y1 - y2))"

text \<open>
  True division of two Python integers, idealised as division of reals;
  \<open>ZeroDivisionError\<close> on a bin of area zero.
\<close>

definition getOccupancy :: "bin \<Rightarrow> error + real" where
  "getOccupancy b =
     (if binWidth b * binHeight b = 0 then Inl ZeroDivisionError
      else Inr (real_of_int (occupiedArea b) / real_of_int (binWidth b * binHeight b)))"

section \<open>maxspace.py\<close>

definition setupFreeRects :: "bin \<Rightarrow> bin" where
  "setupFreeRects b =
     b\<lparr> freeRects := [(Rect (binWidth b) (binHeight b))\<lparr> xpos := 0, ypos := 0 \<rparr>] \<rparr>"

text \<open>\<open>Bin.setup\<close> and \<open>Bin.init\<close>, with the overriding \<open>setupFreeRects\<close>.\<close>

definition bin_setup :: "bin \<Rightarrow> bin" where
  "bin_setup b = (setupFreeRects (b\<lparr> packedRects := [] \<rparr>))\<lparr> occupiedArea := 0, touchingPerimeter := 0 \<rparr>"

definition bin_init :: "bin \<Rightarrow> bin" where
  "bin_init b = bin_setup b"

definition MaxSpaceBin :: "int \<Rightarrow> int \<Rightarrow> bin" where
  "MaxSpaceBin w h = Bin w h"

text \<open>A loop \<open>for i in range(len(xs))\<close> whose body may raise.\<close>

fun foldl_err :: "('s \<Rightarrow> 'a \<Rightarrow> error + 's) \<Rightarrow> 's \<Rightarrow> 'a list \<Rightarrow> error + 's" where
  "foldl_err f s [] = Inr s"
| "foldl_err f s (x # xs) = (case f s x of Inl e \<Rightarrow> Inl e | Inr s' \<Rightarrow> foldl_err f s' xs)"

text \<open>
  The result of the three placement searches once the loop is over: \<open>None\<close> when the best
  index is still \<open>-1\<close>, else a new item at the origin of the chosen space.
\<close>

definition placeAt :: "bin \<Rightarrow> rect \<Rightarrow> int \<Rightarrow> bool \<Rightarrow> pynum \<Rightarrow> pynum \<Rightarrow> rect option" where
  "placeAt b rect bestMaxSpaceIndex isRotated s1 s2 =
     (if bestMaxSpaceIndex = - 1 then None
      else
        let newRect = Rect (width rect) (height rect);
            newRect = (if isRotated then rotate_rect newRect else newRect)
        in Some (newRect\<lparr> xpos := xpos (freeRects b ! nat bestMaxSpaceIndex),
                          ypos := ypos (freeRects b ! nat bestMaxSpaceIndex),
                          score1 := s1, score2 := s2 \<rparr>))"

text \<open>
  \<open>insertTopRightCornerDistance\<close>. The loop state is
  \<open>(largestDist, bestMaxSpaceIndex, isRotated)\<close>. The rotated branch reads the names
  \<open>binWidth\<close> and \<open>binHeight\<close> without \<open>self\<close>; no such global exists in the module, so
  evaluating the arguments of the call raises \<open>NameError\<close>.
\<close>

definition topRight_step :: "bin \<Rightarrow> rect \<Rightarrow> pynum \<times> int \<times> bool \<Rightarrow> nat \<times> rect \<Rightarrow> error + pynum \<times> int \<times> bool" where
  "topRight_step b rect st im =
     (case st of (largestDist, bestMaxSpaceIndex, isRotated) \<Rightarrow>
      case im of (i, maxSpace) \<Rightarrow>
      let st1 =
        (if width rect \<le> width maxSpace \<and> height rect \<le> height maxSpace then
           let dist = computeDistance (xpos maxSpace + width rect) (ypos maxSpace + height rect)
                        (binWidth b) (binHeight b)
           in if num_less largestDist dist then (dist, int i, False) else st
         else st)
      in if canRotate b \<and> height rect \<le> width maxSpace \<and> width rect \<le> height maxSpace
         then Inl NameError
         else Inr st1)"

definition insertTopRightCornerDistance :: "bin \<Rightarrow> rect \<Rightarrow> error + rect option" where
  "insertTopRightCornerDistance b rect =
     (case foldl_err (topRight_step b rect) (IntNum (- 1), - 1, False) (enumerate 0 (freeRects b)) of
        Inl e \<Rightarrow> Inl e
      | Inr (largestDist, bestMaxSpaceIndex, isRotated) \<Rightarrow>
          Inr (placeAt b rect bestMaxSpaceIndex isRotated (num_neg largestDist) PInf))"

text \<open>
  \<open>insertTouchingPerimeter\<close>, with loop state
  \<open>(largestTouchingPerimeter, bestMaxSpaceIndex, isRotated)\<close>.
\<close>

definition touchingPerimeter_step :: "bin \<Rightarrow> rect \<Rightarrow> int \<times> int \<times> bool \<Rightarrow> nat \<times> rect \<Rightarrow> int \<times> int \<times> bool" where
  "touchingPerimeter_step b rect st im =
     (case im of (i, maxSpace) \<Rightarrow>
      let st1 =
        (if width rect \<le> width maxSpace \<and> height rect \<le> height maxSpace then
           let perimeter = computeTouchingPerimeter b (xpos maxSpace) (ypos maxSpace) (width rect) (height rect)
           in if perimeter > fst st then (perimeter, int i, False) else st
         else st)
      in (if canRotate b \<and> height rect \<le> width maxSpace \<and> width rect \<le> height maxSpace then
            let perimeter = computeTouchingPerimeter b (xpos maxSpace) (ypos maxSpace) (height rect) (width rect)
            in if perimeter > fst st1 then (perimeter, int i, True) else st1
          else st1))"

definition insertTouchingPerimeter :: "bin \<Rightarrow> rect \<Rightarrow> rect option" where
  "insertTouchingPerimeter b rect =
     (case foldl (touchingPerimeter_step b rect) (- 1, - 1, False) (enumerate 0 (freeRects b)) of
        (largestTouchingPerimeter, bestMaxSpaceIndex, isRotated) \<Rightarrow>
          placeAt b rect bestMaxSpaceIndex isRotated (IntNum (- largestTouchingPerimeter)) PInf)"

text \<open>
  \<open>insertBestArea\<close>, with loop state
  \<open>(bestWastedArea, bestShortSide, bestMaxSpaceIndex, isRotated)\<close>.
\<close>

definition betterArea :: "int \<Rightarrow> int \<Rightarrow> pynum \<Rightarrow> pynum \<Rightarrow> bool" where
  "betterArea wastedArea shortSide bestWastedArea bestShortSide =
     (num_less (IntNum wastedArea) bestWastedArea
      \<or> (num_eq (IntNum wastedArea) bestWastedArea
          \<and> num_less (IntNum shortSide) bestShortSide))"

definition bestArea_step :: "bin \<Rightarrow> rect \<Rightarrow> pynum \<times> pynum \<times> int \<times> bool \<Rightarrow> nat \<times> rect \<Rightarrow> pynum \<times> pynum \<times> int \<times> bool" where
  "bestArea_step b rect st im =
     (case im of (i, maxSpace) \<Rightarrow>
      let wastedArea = width maxSpace * height maxSpace - width rect * height rect;
          st1 =
            (if width maxSpace \<ge> width rect \<and> height maxSpace \<ge> height rect then
               let horizLeftOver = width maxSpace - width rect;
                   vertLeftOver = height maxSpace - height rect;
                   shortSide = min horizLeftOver vertLeftOver
               in if betterArea wastedArea shortSide (fst st) (fst (snd st))
                  then (IntNum wastedArea, IntNum shortSide, int i, False)
                  else st
             else st)
      in (if canRotate b \<and> width maxSpace \<ge> height rect \<and> height maxSpace \<ge> width rect then
            let horizLeftOver = width maxSpace - height rect;
                vertLeftOver = height maxSpace - width rect;
                shortSide = min horizLeftOver vertLeftOver
            in if betterArea wastedArea shortSide (fst st1) (fst (snd st1))
               then (IntNum wastedArea, IntNum shortSide, int i, True)
               else st1
          else st1))"

definition insertBestArea :: "bin \<Rightarrow> rect \<Rightarrow> rect option" where
  "insertBestArea b rect =
     (case foldl (bestArea_step b rect) (PInf, PInf, - 1, False) (enumerate 0 (freeRects b)) of
        (bestWastedArea, bestShortSide, bestMaxSpaceIndex, isRotated) \<Rightarrow>
          placeAt b rect bestMaxSpaceIndex isRotated bestWastedArea bestShortSide)"

text \<open>
  \<open>evaluatePacking\<close> returns its result together with the bin, since its first statement
  assigns \<open>packHeur\<close> when that field is still unset; the assignment stays when the call
  raises afterwards.
\<close>

definition evaluatePacking :: "bin \<Rightarrow> rect \<Rightarrow> PackingHeuristic option \<Rightarrow> (error + rect option) \<times> bin" where
  "evaluatePacking b rect heur =
     (let b' = (if packHeur b = None then b\<lparr> packHeur := heur \<rparr> else b)
      in (case heur of
            Some BestAreaFit \<Rightarrow> Inr (insertBestArea b' rect)
          | Some TouchingPerimeter \<Rightarrow> Inr (insertTouchingPerimeter b' rect)
          | Some TopRightCornerDistance \<Rightarrow> insertTopRightCornerDistance b' rect
          | None \<Rightarrow> Inl ValueError,
          b'))"

text \<open>The up to four residual spaces that \<open>generateNewMaxSpaces\<close> appends for one free space.\<close>

definition residualSpaces :: "rect \<Rightarrow> rect \<Rightarrow> rect list" where
  "residualSpaces rect freeRect =
     (if xpos rect < xpos freeRect + width freeRect \<and> xpos rect + width rect > xpos freeRect then
        (if ypos rect > ypos freeRect \<and> ypos rect < ypos freeRect + height freeRect
         then [freeRect\<lparr> height := ypos rect - ypos freeRect \<rparr>] else [])
        @ (if ypos rect + height rect > ypos freeRect \<and> ypos rect + height rect < ypos freeRect + height freeRect
           then [freeRect\<lparr> ypos := ypos rect + height rect,
                           height := ypos freeRect + height freeRect - (ypos rect + height rect) \<rparr>] else [])
      else [])
     @ (if ypos rect < ypos freeRect + height freeRect \<and> ypos rect + height rect > ypos freeRect then
          (if xpos rect > xpos freeRect \<and> xpos rect < xpos freeRect + width freeRect
           then [freeRect\<lparr> width := xpos rect - xpos freeRect \<rparr>] else [])
          @ (if xpos rect + width rect > xpos freeRect \<and> xpos rect + width rect < xpos freeRect + width freeRect
             then [freeRect\<lparr> xpos := xpos rect + width rect,
                             width := xpos freeRect + width freeRect - (xpos rect + width rect) \<rparr>] else [])
        else [])"

text \<open>\<open>list.pop(i)\<close> for an index in range.\<close>

definition pop :: "nat \<Rightarrow> 'a list \<Rightarrow> 'a list" where
  "pop i xs = take i xs @ drop (Suc i) xs"

text \<open>
  The \<open>while i < numFreeRects\<close> loop of \<open>generateNewMaxSpaces\<close> on the list \<open>fr\<close>: a space
  that does not overlap the item is stepped over, an overlapping one is popped after its
  residual spaces have been appended behind the first \<open>numFreeRects\<close> entries.
\<close>

function generateNewMaxSpaces_loop :: "rect \<Rightarrow> rect list \<Rightarrow> nat \<Rightarrow> nat \<Rightarrow> rect list" where
  "generateNewMaxSpaces_loop rect fr i numFreeRects =
     (if i < numFreeRects then
        (let freeRect = fr ! i in
         if \<not> Bin_isOverlapping freeRect rect
         then generateNewMaxSpaces_loop rect fr (i + 1) numFreeRects
         else generateNewMaxSpaces_loop rect (pop i (fr @ residualSpaces rect freeRect)) i (numFreeRects - 1))
      else fr)"
  by pat_completeness auto
termination
  by (relation "measure (\<lambda>(rect, fr, i, numFreeRects). numFreeRects - i)") auto

declare generateNewMaxSpaces_loop.simps [simp del]

definition generateNewMaxSpaces :: "bin \<Rightarrow> rect \<Rightarrow> bin" where
  "generateNewMaxSpaces b rect =
     b\<lparr> freeRects := generateNewMaxSpaces_loop rect (freeRects b) 0 (length (freeRects b)) \<rparr>"

text \<open>
  \<open>pruneMaxSpaces\<close>. The inner loop runs over the spaces behind index \<open>i\<close> and stops at the
  \<open>break\<close>; the outer loop threads the set \<open>toRemove\<close>.
\<close>

fun prune_inner :: "nat \<Rightarrow> rect \<Rightarrow> nat \<Rightarrow> rect list \<Rightarrow> nat set \<Rightarrow> nat set" where
  "prune_inner i rectI j [] toRemove = toRemove"
| "prune_inner i rectI j (rectJ # rest) toRemove =
     (if isContainedIn rectJ rectI then prune_inner i rectI (Suc j) rest (insert j toRemove)
      else if isContainedIn rectI rectJ then insert i toRemove
      else prune_inner i rectI (Suc j) rest toRemove)"

fun prune_outer :: "nat \<Rightarrow> rect list \<Rightarrow> nat set \<Rightarrow> nat set" where
  "prune_outer i [] toRemove = toRemove"
| "prune_outer i (rectI # rest) toRemove =
     prune_outer (Suc i) rest (prune_inner i rectI (Suc i) rest toRemove)"

definition pruneMaxSpaces :: "bin \<Rightarrow> error + bin" where
  "pruneMaxSpaces b =
     (let toRemove = prune_outer 0 (freeRects b) {};
          tmp = map (\<lambda>i. freeRects b ! i) (filter (\<lambda>i. i \<notin> toRemove) [0 ..< length (freeRects b)]);
          b' = b\<lparr> freeRects := tmp \<rparr>
      in if length (freeRects b') = 0 then
           (case getOccupancy b' of
              Inl e \<Rightarrow> Inl e
            | Inr occ \<Rightarrow> if occ < 1 then Inl ValueError else Inr b')
         else Inr b')"

text \<open>
  \<open>MaxSpaceBin.insert\<close>: an item that already carries a position is committed as it is,
  any other item is evaluated first.
\<close>

definition insert_bin :: "bin \<Rightarrow> rect \<Rightarrow> PackingHeuristic option \<Rightarrow> error + bool \<times> bin" where
  "insert_bin b rect heuristic =
     (case (if \<not> isReadyForPacking rect then evaluatePacking b rect heuristic
            else (Inr (Some rect), b)) of
        (Inl e, b') \<Rightarrow> Inl e
      | (Inr None, b') \<Rightarrow> Inr (False, b')
      | (Inr (Some newRect), b') \<Rightarrow>
          (case pruneMaxSpaces (generateNewMaxSpaces (packRect b' newRect) newRect) of
             Inl e \<Rightarrow> Inl e
           | Inr b'' \<Rightarrow> Inr (True, b'')))"

section \<open>solution.py\<close>

text \<open>
  The fields of class \<open>RBPSolution\<close>; its \<open>binWidth\<close> and \<open>binHeight\<close> are named
  \<open>solWidth\<close> and \<open>solHeight\<close> here. The last three fields start as \<open>None\<close>.
\<close>

record solution =
  solWidth :: int
  solHeight :: int
  binList :: "bin list"
  rectList :: "rect list option"
  numRects :: "nat option"
  lowerbnd :: "int option"

definition RBPSolution :: "int \<Rightarrow> int \<Rightarrow> solution" where
  "RBPSolution w h = \<lparr> solWidth = w, solHeight = h, binList = [], rectList = None,
                        numRects = None, lowerbnd = None \<rparr>"

definition openNewBin :: "solution \<Rightarrow> bin" where
  "openNewBin sol = bin_init (MaxSpaceBin (solWidth sol) (solHeight sol))"

text \<open>Python's \<open>int()\<close> of a float truncates towards zero.\<close>

definition py_int :: "real \<Rightarrow> int" where
  "py_int r = (if r \<ge> 0 then \<lfloor>r\<rfloor> else \<lceil>r\<rceil>)"

definition totalArea :: "rect list \<Rightarrow> int" where
  "totalArea rl = foldl (\<lambda>a r. a + width r * height r) 0 rl"

definition computeLowerBound :: "solution \<Rightarrow> rect list \<Rightarrow> error + int" where
  "computeLowerBound sol rl =
     (let a = totalArea rl
      in if solWidth sol * solHeight sol = 0 then Inl ZeroDivisionError
         else Inr (py_int (real_of_int a / real_of_int (solWidth sol * solHeight sol) + 1)))"

text \<open>
  The loop \<open>for abin in self.binList\<close> of \<open>pack\<close>. The best bin is kept as its index in
  the bin list together with the candidate it returned; every evaluated bin is returned
  as \<open>evaluatePacking\<close> left it.
\<close>

fun evaluateBins :: "rect \<Rightarrow> PackingHeuristic option \<Rightarrow> bin list \<Rightarrow> nat
      \<Rightarrow> pynum \<times> pynum \<times> (nat \<times> rect) option
      \<Rightarrow> error + bin list \<times> pynum \<times> pynum \<times> (nat \<times> rect) option" where
  "evaluateBins curRect heur [] i best = Inr ([], best)"
| "evaluateBins curRect heur (abin # rest) i best =
     (case evaluatePacking abin curRect heur of
        (Inl e, abin') \<Rightarrow> Inl e
      | (Inr newRect, abin') \<Rightarrow>
          (let best' =
             (case newRect of
                None \<Rightarrow> best
              | Some r \<Rightarrow>
                  (case best of (bestValue1, bestValue2, bb) \<Rightarrow>
                     if num_less (score1 r) bestValue1
                        \<or> (num_eq (score1 r) bestValue1 \<and> num_less (score2 r) bestValue2)
                     then (score1 r, score2 r, Some (i, r)) else best))
           in case evaluateBins curRect heur rest (Suc i) best' of
                Inl e \<Rightarrow> Inl e
              | Inr (rest', b) \<Rightarrow> Inr (abin' # rest', b)))"

text \<open>
  The loop \<open>for curRect in self.rectList\<close> of \<open>pack\<close>. \<open>removePackingInfo\<close> runs inside the
  loop over the bins, so the item is left as it is when no bin is open. The value that
  \<open>insert\<close> returns is discarded in both branches.
\<close>

fun packItems :: "solution \<Rightarrow> PackingHeuristic option \<Rightarrow> rect list \<Rightarrow> bin list
      \<Rightarrow> error + rect list \<times> bin list" where
  "packItems sol heur [] bins = Inr ([], bins)"
| "packItems sol heur (curRect # rest) bins =
     (let cur = (if bins = [] then curRect else removePackingInfo curRect)
      in case evaluateBins cur heur bins 0 (PInf, PInf, None) of
           Inl e \<Rightarrow> Inl e
         | Inr (bins1, bestValue1, bestValue2, best) \<Rightarrow>
             (case (case best of
                      Some (i, bestRect) \<Rightarrow>
                        (case insert_bin (bins1 ! i) bestRect heur of
                           Inl e \<Rightarrow> Inl e
                         | Inr (ok, bestBin) \<Rightarrow> Inr (bins1[i := bestBin]))
                    | None \<Rightarrow>
                        (case insert_bin (openNewBin sol) cur heur of
                           Inl e \<Rightarrow> Inl e
                         | Inr (ok, newBin) \<Rightarrow> Inr (bins1 @ [newBin]))) of
                Inl e \<Rightarrow> Inl e
              | Inr bins2 \<Rightarrow>
                  (case packItems sol heur rest bins2 of
                     Inl e \<Rightarrow> Inl e
                   | Inr (rest', bins3) \<Rightarrow> Inr (cur # rest', bins3))))"

text \<open>
  \<open>pack\<close>, in the three parts its comments name. First the lower bound: a list argument
  replaces the working list when it is neither \<open>None\<close> nor empty, and the lower bound is
  computed when it is still \<open>None\<close> or \<open>0\<close>, which takes \<open>len\<close> of the argument.
\<close>

definition pack_lowerBound :: "solution \<Rightarrow> rect list option \<Rightarrow> error + solution" where
  "pack_lowerBound sol rectListArg =
     (let sol1 = sol\<lparr> binList := [] \<rparr>;
          sol2 = (if rectListArg \<noteq> None \<and> rectListArg \<noteq> Some [] then sol1\<lparr> rectList := rectListArg \<rparr> else sol1)
      in if lowerbnd sol2 = None \<or> lowerbnd sol2 = Some 0 then
           (case rectListArg of
              None \<Rightarrow> Inl TypeError
            | Some rl \<Rightarrow>
                (case computeLowerBound sol2 rl of
                   Inl e \<Rightarrow> Inl e
                 | Inr lb \<Rightarrow> Inr (sol2\<lparr> numRects := Some (length rl), lowerbnd := Some lb \<rparr>)))
         else Inr sol2)"

text \<open>Then the bins opened up front: as many as the lower bound says, or a single one.\<close>

definition pack_openBins :: "solution \<Rightarrow> bool \<Rightarrow> error + bin list" where
  "pack_openBins sol first =
     (if \<not> first then
        (case lowerbnd sol of
           None \<Rightarrow> Inl TypeError
         | Some lb \<Rightarrow> Inr (replicate (nat lb) (openNewBin sol)))
      else Inr [openNewBin sol])"

text \<open>Then the loop over the working list, which is not iterable when it is still \<open>None\<close>.\<close>

definition pack :: "solution \<Rightarrow> rect list option \<Rightarrow> PackingHeuristic option \<Rightarrow> bool \<Rightarrow> error + solution" where
  "pack sol rectListArg heur first =
     (case pack_lowerBound sol rectListArg of
        Inl e \<Rightarrow> Inl e
      | Inr sol3 \<Rightarrow>
          (case pack_openBins sol3 first of
             Inl e \<Rightarrow> Inl e
           | Inr bins0 \<Rightarrow>
               (case rectList sol3 of
                  None \<Rightarrow> Inl TypeError
                | Some rl \<Rightarrow>
                    (case packItems sol3 heur rl bins0 of
                       Inl e \<Rightarrow> Inl e
                     | Inr (rl', bins') \<Rightarrow>
                         Inr (sol3\<lparr> binList := bins', rectList := Some rl' \<rparr>)))))"

text \<open>
  \<open>getLeastFilledBin\<close>, with loop state \<open>(least, leastFilled)\<close>, and \<open>solutionValue\<close>, which
  reads the occupancy of what it returns.
\<close>

fun leastFilled_loop :: "bin list \<Rightarrow> real \<times> bin option \<Rightarrow> error + real \<times> bin option" where
  "leastFilled_loop [] st = Inr st"
| "leastFilled_loop (abin # rest) st =
     (case getOccupancy abin of
        Inl e \<Rightarrow> Inl e
      | Inr occ \<Rightarrow>
          if occ \<le> 0 \<or> occ > 1 then Inl RuntimeError
          else if occ < fst st then leastFilled_loop rest (occ, Some abin)
          else leastFilled_loop rest st)"

definition getLeastFilledBin :: "solution \<Rightarrow> error + bin option" where
  "getLeastFilledBin sol =
     (case leastFilled_loop (binList sol) (2, None) of
        Inl e \<Rightarrow> Inl e
      | Inr (least, leastFilled) \<Rightarrow> Inr leastFilled)"

definition getNumberOfBins :: "solution \<Rightarrow> nat" where
  "getNumberOfBins sol = length (binList sol)"

definition solutionValue :: "solution \<Rightarrow> error + real" where
  "solutionValue sol =
     (case getLeastFilledBin sol of
        Inl e \<Rightarrow> Inl e
      | Inr None \<Rightarrow> Inl AttributeError
      | Inr (Some b) \<Rightarrow>
          (case getOccupancy b of
             Inl e \<Rightarrow> Inl e
           | Inr occ \<Rightarrow> Inr (real (getNumberOfBins sol) + occ)))"

text \<open>
  The random generator is a list of raw integer draws still to come, each call taking the
  next one: \<open>random()\<close> scales a draw into \<open>[0, 1)\<close> and \<open>randint(a, b)\<close> reduces it
  into \<open>[a, b]\<close>. A search that uses up the list yields \<open>None\<close>.
\<close>

definition rng_random :: "int \<Rightarrow> real" where
  "rng_random d = real_of_int (d mod 2 ^ 53) / 2 ^ 53"

definition rng_randint :: "int \<Rightarrow> int \<Rightarrow> int \<Rightarrow> int" where
  "rng_randint a b d = a + d mod (b - a + 1)"

definition swap :: "'a list \<Rightarrow> int \<Rightarrow> int \<Rightarrow> 'a list" where
  "swap subList idx1 idx2 =
     (let tmp = subList ! nat idx1;
          subList1 = subList[nat idx1 := subList ! nat idx2]
      in subList1[nat idx2 := tmp])"

text \<open>The loop \<open>while idx2 == idx1\<close> of \<open>perturb\<close>, from the first draw of \<open>idx2\<close> on.\<close>

fun draw_other :: "nat \<Rightarrow> int \<Rightarrow> int list \<Rightarrow> (int \<times> int list) option" where
  "draw_other n idx1 [] = None"
| "draw_other n idx1 (d # ds) =
     (let idx2 = rng_randint 0 (int n - 1) d
      in if idx2 = idx1 then draw_other n idx1 ds else Some (idx2, ds))"

fun perturb_loop :: "nat \<Rightarrow> 'a list \<Rightarrow> int list \<Rightarrow> ('a list \<times> int list) option" where
  "perturb_loop 0 subList ds = Some (subList, ds)"
| "perturb_loop (Suc k) subList [] = None"
| "perturb_loop (Suc k) subList (d # ds) =
     (let idx1 = rng_randint 0 (int (length subList) - 1) d
      in case draw_other (length subList) idx1 ds of
           None \<Rightarrow> None
         | Some (idx2, ds') \<Rightarrow> perturb_loop k (swap subList idx1 idx2) ds')"

text \<open>The number of swaps that \<open>perturb\<close> makes on a list of \<open>n\<close> items, given the draw of \<open>random()\<close>.\<close>

definition perturb_number :: "int \<Rightarrow> nat \<Rightarrow> int" where
  "perturb_number d n =
     (let strength = 0.025 + 0.125 * rng_random d;
          number = py_int (strength * real n + 0.5)
      in max number 1)"

definition perturb :: "'a list \<Rightarrow> int list \<Rightarrow> ('a list \<times> int list) option" where
  "perturb subList ds =
     (if length subList \<le> 2 then Some (subList, ds)
      else (case ds of
              [] \<Rightarrow> None
            | d # ds' \<Rightarrow> perturb_loop (nat (perturb_number d (length subList))) subList ds'))"

text \<open>
  Python slices: \<open>xs[:k]\<close> and \<open>xs[k:]\<close> for an integer \<open>k\<close>, a negative \<open>k\<close> counting from
  the end of the list.
\<close>

definition slice_start :: "'a list \<Rightarrow> int \<Rightarrow> nat" where
  "slice_start xs k = (if k < 0 then nat (max (int (length xs) + k) 0) else min (nat k) (length xs))"

definition slice_to :: "'a list \<Rightarrow> int \<Rightarrow> 'a list" where
  "slice_to xs k = take (slice_start xs k) xs"

definition slice_from :: "'a list \<Rightarrow> int \<Rightarrow> 'a list" where
  "slice_from xs k = drop (slice_start xs k) xs"

text \<open>The number of items that \<open>removeAndRepack\<close> asks for.\<close>

definition removalNumber :: "real \<Rightarrow> nat \<Rightarrow> int" where
  "removalNumber percentage n = max (py_int (percentage * real n + 1)) 2"

text \<open>
  The part of \<open>removeAndRepack\<close> before the final call of \<open>pack\<close>: the checks, the choice
  of the sub-list, its sorting or perturbation, and the assignment to the slice it was
  taken from. It returns the new working list and the random generator.
\<close>

definition removeAndRepack_reorder :: "solution \<Rightarrow> real \<Rightarrow> bool \<Rightarrow> bool \<Rightarrow> int list
      \<Rightarrow> (error + rect list \<times> int list) option" where
  "removeAndRepack_reorder sol percentage reverse sortFlag ds =
     (if percentage < 0 \<or> percentage > 1 then Some (Inl ValueError)
      else case rectList sol of
        None \<Rightarrow> Some (Inl RuntimeError)
      | Some [] \<Rightarrow> Some (Inl RuntimeError)
      | Some rl \<Rightarrow>
          (case numRects sol of
             None \<Rightarrow> Some (Inl TypeError)
           | Some n \<Rightarrow>
               (let number = removalNumber percentage n;
                    subList = (if reverse then slice_to rl number
                               else slice_from rl (int n - number))
                in case (if sortFlag then Some (sort_key (\<lambda>r. - (width r * height r)) subList, ds)
                         else perturb subList ds) of
                     None \<Rightarrow> None
                   | Some (subList', ds') \<Rightarrow>
                       Some (Inr (if reverse then subList' @ drop (slice_start rl number) rl
                                  else take (slice_start rl (int n - number)) rl @ subList', ds')))))"

definition removeAndRepack :: "solution \<Rightarrow> PackingHeuristic option \<Rightarrow> real \<Rightarrow> bool \<Rightarrow> bool \<Rightarrow> bool
      \<Rightarrow> int list \<Rightarrow> (error + solution \<times> int list) option" where
  "removeAndRepack sol heur percentage reverse sortFlag first ds =
     (case removeAndRepack_reorder sol percentage reverse sortFlag ds of
        None \<Rightarrow> None
      | Some (Inl e) \<Rightarrow> Some (Inl e)
      | Some (Inr (rl', ds')) \<Rightarrow>
          (case pack (sol\<lparr> rectList := Some rl' \<rparr>) None heur first of
             Inl e \<Rightarrow> Some (Inl e)
           | Inr sol' \<Rightarrow> Some (Inr (sol', ds'))))"

section \<open>Notions of the specification\<close>



text \<open>
  The solution that \<open>pack\<close> builds for a single item that fills a \<open>10 \<times> 10\<close> bin: the lower
  bound is \<open>2\<close>, so two bins are opened and the second stays empty.
\<close>

definition packed_full_and_empty :: solution where
  "packed_full_and_empty =
     \<lparr> solWidth = 10, solHeight = 10,
       binList =
         [\<lparr> binWidth = 10, binHeight = 10, occupiedArea = 100, touchingPerimeter = 0,
            packedRects = [\<lparr> width = 10, height = 10, area = 100, score1 = IntNum 0, score2 = IntNum 0,
                             xpos = 0, ypos = 0, rectid = - 1 \<rparr>],
            freeRects = [], canRotate = False, packHeur = Some BestAreaFit \<rparr>,
          \<lparr> binWidth = 10, binHeight = 10, occupiedArea = 0, touchingPerimeter = 0,
            packedRects = [],
            freeRects = [\<lparr> width = 10, height = 10, area = 100, score1 = PInf, score2 = PInf,
                           xpos = 0, ypos = 0, rectid = - 1 \<rparr>],
            canRotate = False, packHeur = Some BestAreaFit \<rparr>],
       rectList = Some [Rect 10 10], numRects = Some 1, lowerbnd = Some 2 \<rparr>"

text \<open>The length of the intersection of two intervals.\<close>

definition sharedLength :: "int \<Rightarrow> int \<Rightarrow> int \<Rightarrow> int \<Rightarrow> int" where
  "sharedLength start1 end1 start2 end2 = max 0 (min end1 end2 - max start1 start2)"

text \<open>
  The part of a candidate's boundary that lies on the outer edges of the bin, each of the
  four edges counted on its own, as the claim on the touching perimeter words it.
\<close>

definition binEdgeContact_each :: "bin \<Rightarrow> int \<Rightarrow> int \<Rightarrow> int \<Rightarrow> int \<Rightarrow> int" where
  "binEdgeContact_each b x y w h =
     (if x = 0 then h else 0) + (if x + w = binWidth b then h else 0)
     + (if y = 0 then w else 0) + (if y + h = binHeight b then w else 0)"

text \<open>The same with each pair of opposite edges counted once.\<close>

definition binEdgeContact_once :: "bin \<Rightarrow> int \<Rightarrow> int \<Rightarrow> int \<Rightarrow> int \<Rightarrow> int" where
  "binEdgeContact_once b x y w h =
     (if x = 0 \<or> x + w = binWidth b then h else 0)
     + (if y = 0 \<or> y + h = binHeight b then w else 0)"

text \<open>
  The length of boundary that a candidate shares with a packed item: the shared vertical
  extent when one ends horizontally where the other begins, and likewise the shared
  horizontal extent.
\<close>

definition itemContact :: "rect \<Rightarrow> int \<Rightarrow> int \<Rightarrow> int \<Rightarrow> int \<Rightarrow> int" where
  "itemContact r x y w h =
     (if xpos r + width r = x \<or> x + w = xpos r
      then sharedLength y (y + h) (ypos r) (ypos r + height r) else 0)
     + (if ypos r = y + h \<or> ypos r + height r = y
        then sharedLength x (x + w) (xpos r) (xpos r + width r) else 0)"

definition touchingPerimeter_claimed :: "bin \<Rightarrow> int \<Rightarrow> int \<Rightarrow> int \<Rightarrow> int \<Rightarrow> int" where
  "touchingPerimeter_claimed b x y w h =
     binEdgeContact_each b x y w h + (\<Sum>r\<leftarrow>packedRects b. itemContact r x y w h)"

text \<open>
  A solution holding five items as its working list, as \<open>pack\<close> leaves it, for the
  examples on \<open>removeAndRepack\<close>.
\<close>

definition five_items :: "rect list" where
  "five_items = [Rect 1 1, Rect 2 2, Rect 3 3, Rect 4 4, Rect 5 5]"


text \<open>
  A rectangle lies entirely inside the bin; the three free-space invariants; and a
  sequence of inserts into a bin, each of which returns \<open>True\<close>.
\<close>

definition insideBin :: "bin \<Rightarrow> rect \<Rightarrow> bool" where
  "insideBin b f =
     (0 \<le> xpos f \<and> 0 \<le> ypos f
      \<and> xpos f + width f \<le> binWidth b \<and> ypos f + height f \<le> binHeight b)"

definition freeSpaceInvariant :: "bin \<Rightarrow> bool" where
  "freeSpaceInvariant b =
     ((\<forall>f \<in> set (freeRects b). insideBin b f)
      \<and> (\<forall>f \<in> set (freeRects b). \<forall>p \<in> set (packedRects b). \<not> interiors_intersect f p)
      \<and> (\<forall>i < length (freeRects b). \<forall>j < length (freeRects b).
            i \<noteq> j \<longrightarrow> \<not> isContainedIn (freeRects b ! i) (freeRects b ! j)))"

fun insertSeq :: "bin \<Rightarrow> (rect \<times> PackingHeuristic option) list \<Rightarrow> bin option" where
  "insertSeq b [] = Some b"
| "insertSeq b ((r, h) # ops) =
     (case insert_bin b r h of
        Inl e \<Rightarrow> None
      | Inr (ok, b') \<Rightarrow> if ok then insertSeq b' ops else None)"

text \<open>
  The bin that three successive inserts into a fresh \<open>10 \<times> 10\<close> bin produce, for items
  \<open>6 \<times> 4\<close>, \<open>4 \<times> 6\<close> and \<open>5 \<times> 5\<close>, one under each heuristic.
\<close>

definition three_items_bin :: bin where
  "three_items_bin =
     \<lparr> binWidth = 10, binHeight = 10, occupiedArea = 73, touchingPerimeter = 0,
       packedRects =
         [\<lparr> width = 6, height = 4, area = 24, score1 = IntNum 76, score2 = IntNum 4,
            xpos = 0, ypos = 0, rectid = - 1 \<rparr>,
          \<lparr> width = 4, height = 6, area = 24, score1 = IntNum (- 14), score2 = PInf,
            xpos = 0, ypos = 4, rectid = - 1 \<rparr>,
          \<lparr> width = 5, height = 5, area = 25, score1 = NegSqrt 2, score2 = PInf,
            xpos = 4, ypos = 4, rectid = - 1 \<rparr>],
       freeRects =
         [\<lparr> width = 4, height = 4, area = 100, score1 = PInf, score2 = PInf,
            xpos = 6, ypos = 0, rectid = - 1 \<rparr>,
          \<lparr> width = 1, height = 10, area = 100, score1 = PInf, score2 = PInf,
            xpos = 9, ypos = 0, rectid = - 1 \<rparr>,
          \<lparr> width = 6, height = 1, area = 100, score1 = PInf, score2 = PInf,
            xpos = 4, ypos = 9, rectid = - 1 \<rparr>],
       canRotate = False, packHeur = Some BestAreaFit \<rparr>"







section \<open>Geometry: the overlap test\<close>

text \<open>
  The open extents intersect exactly when some point of the plane lies strictly inside both
  rectangles, so \<open>interiors_intersect\<close> is the geometric notion.
\<close>

lemma interiors_intersect_point:
  "interiors_intersect a b \<longleftrightarrow>
     (\<exists>p q :: real. real_of_int (xpos a) < p \<and> p < real_of_int (xpos a + width a)
        \<and> real_of_int (xpos b) < p \<and> p < real_of_int (xpos b + width b)
        \<and> real_of_int (ypos a) < q \<and> q < real_of_int (ypos a + height a)
        \<and> real_of_int (ypos b) < q \<and> q < real_of_int (ypos b + height b))"
proof
  assume h: "interiors_intersect a b"
  define lx where "lx = real_of_int (max (xpos a) (xpos b))"
  define ux where "ux = real_of_int (min (xpos a + width a) (xpos b + width b))"
  define ly where "ly = real_of_int (max (ypos a) (ypos b))"
  define uy where "uy = real_of_int (min (ypos a + height a) (ypos b + height b))"
  from h have lt: "lx < ux" "ly < uy"
    unfolding interiors_intersect_def lx_def ux_def ly_def uy_def by linarith+
  let ?p = "(lx + ux) / 2" and ?q = "(ly + uy) / 2"
  have px: "lx < ?p" "?p < ux" and qy: "ly < ?q" "?q < uy" using lt by simp_all
  have bx: "real_of_int (xpos a) \<le> lx" "real_of_int (xpos b) \<le> lx"
           "ux \<le> real_of_int (xpos a + width a)" "ux \<le> real_of_int (xpos b + width b)"
    unfolding lx_def ux_def by linarith+
  have by': "real_of_int (ypos a) \<le> ly" "real_of_int (ypos b) \<le> ly"
           "uy \<le> real_of_int (ypos a + height a)" "uy \<le> real_of_int (ypos b + height b)"
    unfolding ly_def uy_def by linarith+
  show "\<exists>p q :: real. real_of_int (xpos a) < p \<and> p < real_of_int (xpos a + width a)
        \<and> real_of_int (xpos b) < p \<and> p < real_of_int (xpos b + width b)
        \<and> real_of_int (ypos a) < q \<and> q < real_of_int (ypos a + height a)
        \<and> real_of_int (ypos b) < q \<and> q < real_of_int (ypos b + height b)"
    apply (rule exI [of _ ?p], rule exI [of _ ?q])
    using px qy bx by' by linarith
next
  assume "\<exists>p q :: real. real_of_int (xpos a) < p \<and> p < real_of_int (xpos a + width a)
        \<and> real_of_int (xpos b) < p \<and> p < real_of_int (xpos b + width b)
        \<and> real_of_int (ypos a) < q \<and> q < real_of_int (ypos a + height a)
        \<and> real_of_int (ypos b) < q \<and> q < real_of_int (ypos b + height b)"
  then obtain p q :: real where
      "real_of_int (xpos a) < p" "p < real_of_int (xpos a + width a)"
      "real_of_int (xpos b) < p" "p < real_of_int (xpos b + width b)"
      "real_of_int (ypos a) < q" "q < real_of_int (ypos a + height a)"
      "real_of_int (ypos b) < q" "q < real_of_int (ypos b + height b)"
    by blast
  then have "real_of_int (xpos a) < real_of_int (xpos a + width a)"
       "real_of_int (xpos a) < real_of_int (xpos b + width b)"
       "real_of_int (xpos b) < real_of_int (xpos a + width a)"
       "real_of_int (xpos b) < real_of_int (xpos b + width b)"
       "real_of_int (ypos a) < real_of_int (ypos a + height a)"
       "real_of_int (ypos a) < real_of_int (ypos b + height b)"
       "real_of_int (ypos b) < real_of_int (ypos a + height a)"
       "real_of_int (ypos b) < real_of_int (ypos b + height b)"
    by linarith+
  then show "interiors_intersect a b"
    unfolding interiors_intersect_def by (simp only: of_int_less_iff) linarith
qed

text \<open>
  Claim C5. For rectangles \<open>a\<close> and \<open>b\<close> with positive widths and heights and assigned
  positions, both overlap tests (\<open>Rect.isOverlapping\<close> and \<open>Bin.isOverlapping\<close>) return true
  if and only if the interiors of \<open>a\<close> and \<open>b\<close> intersect on both axes, and they return false
  when the rectangles merely touch along an edge or at a corner.
\<close>

theorem C5_overlap_iff_interiors_intersect:
  assumes "0 < width a" "0 < height a" "0 < width b" "0 < height b"
    and "isReadyForPacking a" "isReadyForPacking b"
  shows "(Rect_isOverlapping a b \<longleftrightarrow> interiors_intersect a b)
       \<and> (Bin_isOverlapping a b \<longleftrightarrow> interiors_intersect a b)
       \<and> (merely_touching a b \<longrightarrow> \<not> Rect_isOverlapping a b \<and> \<not> Bin_isOverlapping a b)"
proof -
  have r: "Rect_isOverlapping a b \<longleftrightarrow> interiors_intersect a b"
    using assms(1-4)
    unfolding Rect_isOverlapping_def interiors_intersect_def computeCommonLength_def
    by (auto simp: min_def max_def)
  have b: "Bin_isOverlapping a b \<longleftrightarrow> interiors_intersect a b"
    using assms(1-4)
    unfolding Bin_isOverlapping_def interiors_intersect_def Let_def
    by (auto simp: min_def max_def)
  have t: "merely_touching a b \<longrightarrow> \<not> interiors_intersect a b"
    using assms(1-4)
    unfolding merely_touching_def interiors_intersect_def
    by (auto simp: min_def max_def)
  from r b t show ?thesis by blast
qed

theorem C5_overlap_witness:
  "(Rect_isOverlapping (Rect 4 4 \<lparr> xpos := 0, ypos := 0 \<rparr>) (Rect 3 3 \<lparr> xpos := 4, ypos := 1 \<rparr>)
      \<longleftrightarrow> interiors_intersect (Rect 4 4 \<lparr> xpos := 0, ypos := 0 \<rparr>) (Rect 3 3 \<lparr> xpos := 4, ypos := 1 \<rparr>))
   \<and> \<not> Bin_isOverlapping (Rect 4 4 \<lparr> xpos := 0, ypos := 0 \<rparr>) (Rect 3 3 \<lparr> xpos := 4, ypos := 1 \<rparr>)
   \<and> merely_touching (Rect 4 4 \<lparr> xpos := 0, ypos := 0 \<rparr>) (Rect 3 3 \<lparr> xpos := 4, ypos := 1 \<rparr>)"
  using C5_overlap_iff_interiors_intersect
    [of "Rect 4 4 \<lparr> xpos := 0, ypos := 0 \<rparr>" "Rect 3 3 \<lparr> xpos := 4, ypos := 1 \<rparr>"]
  by (simp add: Rect_def isReadyForPacking_def merely_touching_def interiors_intersect_def)

section \<open>The lower bound\<close>






section \<open>The least-filled bin\<close>

lemma leastFilled_loop_empty_bin:
  assumes "\<forall>b \<in> set bins. binWidth b * binHeight b \<noteq> 0"
    and "\<exists>b \<in> set bins. occupiedArea b = 0"
  shows "leastFilled_loop bins st = Inl RuntimeError"
  using assms
proof (induction bins arbitrary: st)
  case Nil
  then show ?case by simp
next
  case (Cons b bins)
  show ?case
  proof (cases "occupiedArea b = 0")
    case True
    with Cons.prems(1) show ?thesis by (simp add: getOccupancy_def)
  next
    case False
    with Cons.prems have "\<exists>b \<in> set bins. occupiedArea b = 0" by auto
    with Cons.prems(1) have "leastFilled_loop bins st' = Inl RuntimeError" for st'
      using Cons.IH by simp
    with Cons.prems(1) show ?thesis by (simp add: getOccupancy_def)
  qed
qed

text \<open>
  Claim C10. When every bin has a non-zero area and some bin of the bin list is empty, its
  occupancy being exactly \<open>0\<close>, \<open>getLeastFilledBin\<close> and \<open>solutionValue\<close> raise
  \<open>RuntimeError\<close> instead of returning a value. An instance is the solution that \<open>pack\<close>
  builds for one item that fills the bin, where the second pre-opened bin stays empty.
\<close>

theorem C10_empty_bin_raises:
  assumes "\<forall>b \<in> set (binList sol). binWidth b * binHeight b \<noteq> 0"
    and "b \<in> set (binList sol)" and "getOccupancy b = Inr 0"
  shows "getLeastFilledBin sol = Inl RuntimeError \<and> solutionValue sol = Inl RuntimeError"
proof -
  from assms have "occupiedArea b = 0"
    by (auto simp: getOccupancy_def split: if_splits)
  with assms(2) have "\<exists>b \<in> set (binList sol). occupiedArea b = 0" by blast
  from leastFilled_loop_empty_bin [OF assms(1) this]
  show ?thesis by (simp add: getLeastFilledBin_def solutionValue_def)
qed

lemma pack_full_and_empty:
  "pack (RBPSolution 10 10) (Some [Rect 10 10]) (Some BestAreaFit) False = Inr packed_full_and_empty"
  by code_simp

theorem C10_empty_bin_raises_witness:
  "pack (RBPSolution 10 10) (Some [Rect 10 10]) (Some BestAreaFit) False = Inr packed_full_and_empty
   \<and> getOccupancy (binList packed_full_and_empty ! 1) = Inr 0
   \<and> getLeastFilledBin packed_full_and_empty = Inl RuntimeError
   \<and> solutionValue packed_full_and_empty = Inl RuntimeError"
proof -
  have a: "\<forall>b \<in> set (binList packed_full_and_empty). binWidth b * binHeight b \<noteq> 0"
    by (simp add: packed_full_and_empty_def)
  have b: "binList packed_full_and_empty ! 1 \<in> set (binList packed_full_and_empty)"
    by (simp add: packed_full_and_empty_def)
  have c: "getOccupancy (binList packed_full_and_empty ! 1) = Inr 0"
    by (simp add: packed_full_and_empty_def getOccupancy_def)
  from C10_empty_bin_raises [OF a b c] c pack_full_and_empty show ?thesis by simp
qed






section \<open>The touching perimeter\<close>

lemma computeCommonLength_sharedLength:
  "start1 \<le> end1 \<Longrightarrow> start2 \<le> end2
     \<Longrightarrow> computeCommonLength start1 end1 start2 end2 = sharedLength start1 end1 start2 end2"
  by (auto simp: computeCommonLength_def sharedLength_def)

lemma touching_step_itemContact:
  "0 \<le> w \<Longrightarrow> 0 \<le> h \<Longrightarrow> 0 \<le> width r \<Longrightarrow> 0 \<le> height r
     \<Longrightarrow> touching_step x y w h p r = p + itemContact r x y w h"
  by (simp add: touching_step_def itemContact_def Let_def computeCommonLength_sharedLength)

lemma foldl_touching_step:
  assumes "0 \<le> w" "0 \<le> h" "\<forall>r \<in> set rs. 0 \<le> width r \<and> 0 \<le> height r"
  shows "foldl (touching_step x y w h) p rs = p + (\<Sum>r\<leftarrow>rs. itemContact r x y w h)"
  using assms(3)
proof (induction rs arbitrary: p)
  case Nil
  then show ?case by simp
next
  case (Cons r rs)
  then show ?case using assms(1,2) by (simp add: touching_step_itemContact)
qed

text \<open>
  Claim C6 fails as stated: in an empty \<open>10 \<times> 10\<close> bin a candidate \<open>10 \<times> 5\<close> at the origin
  touches the left, the right and the bottom edge of the bin, so the boundary on the
  bin's edges has length \<open>5 + 5 + 10 = 20\<close>, while \<open>computeTouchingPerimeter\<close> returns \<open>15\<close>.
\<close>

theorem C6_touchingPerimeter_counterexample:
  "computeTouchingPerimeter (openNewBin (RBPSolution 10 10)) 0 0 10 5 = 15
   \<and> touchingPerimeter_claimed (openNewBin (RBPSolution 10 10)) 0 0 10 5 = 20"
  by (simp add: computeTouchingPerimeter_def touchingPerimeter_claimed_def binEdgeContact_each_def
      openNewBin_def bin_init_def bin_setup_def setupFreeRects_def MaxSpaceBin_def Bin_def
      RBPSolution_def)

text \<open>
  Claim C6, amended. For a candidate and packed items of non-negative dimensions,
  \<open>computeTouchingPerimeter\<close> returns the sum of (a) the candidate's height if it touches
  the left or the right edge of the bin, counted once also when it touches both, and its
  width if it touches the bottom or the top edge, counted once, plus (b) for each packed
  item the length of boundary shared with it where the two are edge-adjacent. It agrees
  with the sum over each coincident bin edge whenever the candidate does not touch two
  opposite edges of the bin.
\<close>

theorem C6_touchingPerimeter_amended:
  assumes "0 \<le> w" "0 \<le> h" "\<forall>r \<in> set (packedRects b). 0 \<le> width r \<and> 0 \<le> height r"
  shows "computeTouchingPerimeter b x y w h
           = binEdgeContact_once b x y w h + (\<Sum>r\<leftarrow>packedRects b. itemContact r x y w h)
       \<and> (\<not> (x = 0 \<and> x + w = binWidth b) \<and> \<not> (y = 0 \<and> y + h = binHeight b)
            \<longrightarrow> computeTouchingPerimeter b x y w h = touchingPerimeter_claimed b x y w h)"
proof -
  have a: "computeTouchingPerimeter b x y w h
           = binEdgeContact_once b x y w h + (\<Sum>r\<leftarrow>packedRects b. itemContact r x y w h)"
    unfolding computeTouchingPerimeter_def Let_def foldl_touching_step [OF assms]
    by (simp add: binEdgeContact_once_def)
  have "binEdgeContact_once b x y w h = binEdgeContact_each b x y w h"
    if "\<not> (x = 0 \<and> x + w = binWidth b)" "\<not> (y = 0 \<and> y + h = binHeight b)"
    using that by (auto simp: binEdgeContact_once_def binEdgeContact_each_def)
  with a show ?thesis by (simp add: touchingPerimeter_claimed_def)
qed

theorem C6_touchingPerimeter_amended_witness:
  "computeTouchingPerimeter
     (packRect (openNewBin (RBPSolution 10 10)) ((Rect 4 6)\<lparr> xpos := 0, ypos := 0 \<rparr>)) 4 0 3 8 = 9
   \<and> touchingPerimeter_claimed
     (packRect (openNewBin (RBPSolution 10 10)) ((Rect 4 6)\<lparr> xpos := 0, ypos := 0 \<rparr>)) 4 0 3 8 = 9"
proof -
  let ?b = "packRect (openNewBin (RBPSolution 10 10)) ((Rect 4 6)\<lparr> xpos := 0, ypos := 0 \<rparr>)"
  have p: "packedRects ?b = [(Rect 4 6)\<lparr> xpos := 0, ypos := 0 \<rparr>]" "binWidth ?b = 10" "binHeight ?b = 10"
    by (simp_all add: packRect_def openNewBin_def bin_init_def bin_setup_def setupFreeRects_def
        MaxSpaceBin_def Bin_def RBPSolution_def)
  have h: "(0::int) \<le> 3" "(0::int) \<le> 8" "\<forall>r \<in> set (packedRects ?b). 0 \<le> width r \<and> 0 \<le> height r"
    unfolding p by (simp_all add: Rect_def)
  have v: "binEdgeContact_once ?b 4 0 3 8 + (\<Sum>r\<leftarrow>packedRects ?b. itemContact r 4 0 3 8) = 9"
    unfolding p binEdgeContact_once_def by (simp add: p itemContact_def sharedLength_def Rect_def)
  from C6_touchingPerimeter_amended [OF h, of 4 0] v show ?thesis by (simp add: p)
qed

section \<open>Evaluating a placement\<close>

text \<open>
  Claim C2 against the code: with rotation enabled, evaluating an item that fits a free
  space in rotated position under \<open>TopRightCornerDistance\<close> raises \<open>NameError\<close>, where the
  claim has a candidate or \<open>None\<close> returned.
\<close>

theorem C2_evaluatePacking_raises_NameError:
  "fst (evaluatePacking ((openNewBin (RBPSolution 10 10))\<lparr> canRotate := True \<rparr>) (Rect 2 3)
          (Some TopRightCornerDistance)) = Inl NameError"
  by code_simp

text \<open>
  The defect is confined to that branch: the other two heuristics, and the corner distance
  with rotation disabled, always return a result.
\<close>

lemma foldl_err_topRight_no_rotation:
  "\<not> canRotate b \<Longrightarrow> \<exists>st'. foldl_err (topRight_step b rect) st ims = Inr st'"
proof (induction ims arbitrary: st)
  case Nil
  show ?case by (intro exI [of _ st]) simp
next
  case (Cons im ims)
  obtain l bi rot where st: "st = (l, bi, rot)" by (metis prod_cases3)
  obtain i ms where im: "im = (i, ms)" by (metis surj_pair)
  from Cons.prems obtain st1 where "topRight_step b rect st im = Inr st1"
    by (simp add: topRight_step_def st im Let_def)
  with Cons show ?case by simp
qed

lemma evaluatePacking_no_error:
  assumes "heur = Some BestAreaFit \<or> heur = Some TouchingPerimeter
           \<or> (heur = Some TopRightCornerDistance \<and> \<not> canRotate b)"
  shows "\<exists>res. fst (evaluatePacking b rect heur) = Inr res"
proof -
  have "\<exists>res. insertTopRightCornerDistance b' rect = Inr res" if "\<not> canRotate b'" for b'
    using foldl_err_topRight_no_rotation [OF that, of rect "(IntNum (- 1), - 1, False)" "enumerate 0 (freeRects b')"]
    by (auto simp: insertTopRightCornerDistance_def)
  from this [of b] this [of "b\<lparr> packHeur := heur \<rparr>"] assms show ?thesis
    by (auto simp: evaluatePacking_def Let_def)
qed

lemma insert_packHeur_irrelevant:
  "insertBestArea (b\<lparr> packHeur := p \<rparr>) r = insertBestArea b r"
  "insertTouchingPerimeter (b\<lparr> packHeur := p \<rparr>) r = insertTouchingPerimeter b r"
  "insertTopRightCornerDistance (b\<lparr> packHeur := p \<rparr>) r = insertTopRightCornerDistance b r"
proof -
  have 1: "bestArea_step (b\<lparr> packHeur := p \<rparr>) r = bestArea_step b r"
    by (intro ext) (simp add: bestArea_step_def)
  have 0: "computeTouchingPerimeter (b\<lparr> packHeur := p \<rparr>) = computeTouchingPerimeter b"
    by (intro ext) (simp add: computeTouchingPerimeter_def)
  have 2: "touchingPerimeter_step (b\<lparr> packHeur := p \<rparr>) r = touchingPerimeter_step b r"
    unfolding touchingPerimeter_step_def 0 by (intro ext) simp
  have 3: "topRight_step (b\<lparr> packHeur := p \<rparr>) r = topRight_step b r"
    by (intro ext) (simp add: topRight_step_def cong: if_cong split: prod.splits)
  have 4: "placeAt (b\<lparr> packHeur := p \<rparr>) = placeAt b"
    by (intro ext) (simp add: placeAt_def)
  show "insertBestArea (b\<lparr> packHeur := p \<rparr>) r = insertBestArea b r"
    unfolding insertBestArea_def 1 4 by simp
  show "insertTouchingPerimeter (b\<lparr> packHeur := p \<rparr>) r = insertTouchingPerimeter b r"
    unfolding insertTouchingPerimeter_def 2 4 by simp
  show "insertTopRightCornerDistance (b\<lparr> packHeur := p \<rparr>) r = insertTopRightCornerDistance b r"
    unfolding insertTopRightCornerDistance_def 3 4 by simp
qed

lemma evaluatePacking_result:
  "fst (evaluatePacking b r h) =
     (case h of Some BestAreaFit \<Rightarrow> Inr (insertBestArea b r)
      | Some TouchingPerimeter \<Rightarrow> Inr (insertTouchingPerimeter b r)
      | Some TopRightCornerDistance \<Rightarrow> insertTopRightCornerDistance b r
      | None \<Rightarrow> Inl ValueError)"
  by (simp add: evaluatePacking_def Let_def insert_packHeur_irrelevant
      split: option.splits PackingHeuristic.splits)

lemma evaluatePacking_bin:
  "snd (evaluatePacking b r h) = b\<lparr> packHeur := (if packHeur b = None then h else packHeur b) \<rparr>"
  by (simp add: evaluatePacking_def Let_def)

text \<open>
  Claim C7 fails as stated: the first evaluation on a freshly opened bin changes a field
  of the bin, \<open>packHeur\<close>, from \<open>None\<close> to the heuristic.
\<close>

theorem C7_evaluatePacking_counterexample:
  "packHeur (openNewBin (RBPSolution 10 10)) = None
   \<and> packHeur (snd (evaluatePacking (openNewBin (RBPSolution 10 10)) (Rect 2 3) (Some BestAreaFit)))
       = Some BestAreaFit
   \<and> snd (evaluatePacking (openNewBin (RBPSolution 10 10)) (Rect 2 3) (Some BestAreaFit))
       \<noteq> openNewBin (RBPSolution 10 10)"
proof -
  have a: "packHeur (openNewBin (RBPSolution 10 10)) = None"
    by (simp add: openNewBin_def bin_init_def bin_setup_def setupFreeRects_def MaxSpaceBin_def Bin_def)
  have b: "packHeur (snd (evaluatePacking (openNewBin (RBPSolution 10 10)) (Rect 2 3) (Some BestAreaFit)))
       = Some BestAreaFit"
    by (simp add: evaluatePacking_bin a)
  from a b show ?thesis by auto
qed

text \<open>
  Claim C7, amended. For every bin state, item and heuristic, evaluating the same item
  twice in a row yields the same result (the same candidate, the same \<open>None\<close> or the same
  exception) and the second call leaves the bin as the first one left it; an evaluation
  changes no field of the bin other than \<open>packHeur\<close>, which it sets to the heuristic when
  it was still unset.
\<close>

theorem C7_evaluatePacking_amended:
  "fst (evaluatePacking (snd (evaluatePacking b r h)) r h) = fst (evaluatePacking b r h)
   \<and> snd (evaluatePacking (snd (evaluatePacking b r h)) r h) = snd (evaluatePacking b r h)
   \<and> snd (evaluatePacking b r h) = b\<lparr> packHeur := (if packHeur b = None then h else packHeur b) \<rparr>"
proof -
  have 1: "fst (evaluatePacking (snd (evaluatePacking b r h)) r h) = fst (evaluatePacking b r h)"
    unfolding evaluatePacking_bin evaluatePacking_result
    by (simp add: insert_packHeur_irrelevant split: option.splits PackingHeuristic.splits)
  have 2: "snd (evaluatePacking (snd (evaluatePacking b r h)) r h) = snd (evaluatePacking b r h)"
    unfolding evaluatePacking_bin by (cases "packHeur b") simp_all
  from 1 2 evaluatePacking_bin [of b r h] show ?thesis by simp
qed

section \<open>Ruin and recreate\<close>











text \<open>
  A removal count above the number of items is outside the amended claim: with a fraction
  of \<open>1\<close> the count is one more than the number of items, and the slice taken from the
  tail then starts at index \<open>-1\<close>, which selects the last item only.
\<close>

lemma removeAndRepack_fraction_one_tail:
  "removalNumber 1 5 = 6 \<and> slice_from five_items (5 - removalNumber 1 5) = [Rect 5 5]
   \<and> slice_to five_items (removalNumber 1 5) = five_items"
  by code_simp

section \<open>The free-space invariants\<close>

lemma residualSpaces_contained:
  "g \<in> set (residualSpaces r f) \<Longrightarrow> isContainedIn g f \<and> \<not> Bin_isOverlapping g r"
  by (auto simp: residualSpaces_def isContainedIn_def Bin_isOverlapping_def Let_def split: if_splits)

lemma pop_append_in_range:
  "i < length fr \<Longrightarrow> pop i (fr @ res) = take i fr @ drop (Suc i) fr @ res"
  by (simp add: pop_def)

text \<open>
  The loop of \<open>generateNewMaxSpaces\<close>, run over the whole list, keeps the spaces that do
  not overlap the item in their order and puts behind them the residual spaces of the
  overlapping ones.
\<close>

lemma generateNewMaxSpaces_loop_eq:
  "i \<le> n \<Longrightarrow> n \<le> length fr \<Longrightarrow>
   generateNewMaxSpaces_loop r fr i n =
     take i fr @ filter (\<lambda>f. \<not> Bin_isOverlapping f r) (take (n - i) (drop i fr)) @ drop n fr
     @ concat (map (residualSpaces r) (filter (\<lambda>f. Bin_isOverlapping f r) (take (n - i) (drop i fr))))"
proof (induction r fr i n rule: generateNewMaxSpaces_loop.induct)
  case (1 r fr i n)
  show ?case
  proof (cases "i < n")
    case False
    with "1.prems" have "i = n" by simp
    then show ?thesis by (subst generateNewMaxSpaces_loop.simps) simp
  next
    case True
    with "1.prems" have il: "i < length fr" by simp
    have dr: "drop i fr = fr ! i # drop (Suc i) fr" using il by (simp add: Cons_nth_drop_Suc)
    from True obtain m where m: "n - i = Suc m" by (cases "n - i") auto
    then have m': "n - Suc i = m" by simp
    have tk: "take (n - i) (drop i fr) = fr ! i # take m (drop (Suc i) fr)"
      by (simp add: m dr)
    show ?thesis
    proof (cases "Bin_isOverlapping (fr ! i) r")
      case False
      have "generateNewMaxSpaces_loop r fr i n = generateNewMaxSpaces_loop r fr (i + 1) n"
        using True False by (subst generateNewMaxSpaces_loop.simps) (simp add: Let_def)
      also have "\<dots> = take (Suc i) fr
          @ filter (\<lambda>f. \<not> Bin_isOverlapping f r) (take m (drop (Suc i) fr)) @ drop n fr
          @ concat (map (residualSpaces r) (filter (\<lambda>f. Bin_isOverlapping f r) (take m (drop (Suc i) fr))))"
        using "1.IH"(1) [OF True refl False] True "1.prems" by (simp add: m')
      also have "take (Suc i) fr = take i fr @ [fr ! i]"
        using il by (simp add: take_Suc_conv_app_nth)
      finally show ?thesis using False by (simp add: tk)
    next
      case ov: True
      let ?res = "residualSpaces r (fr ! i)"
      let ?fr' = "pop i (fr @ ?res)"
      have fr': "?fr' = take i fr @ drop (Suc i) fr @ ?res"
        using il by (rule pop_append_in_range)
      have len: "n - 1 \<le> length ?fr'" using "1.prems" il by (simp add: fr')
      have i_le: "i \<le> n - 1" using True by simp
      have ti: "take i ?fr' = take i fr" using il by (simp add: fr')
      have di: "drop i ?fr' = drop (Suc i) fr @ ?res" using il by (simp add: fr')
      have mlen: "m \<le> length (drop (Suc i) fr)" using "1.prems" m by simp
      have tm: "take (n - 1 - i) (drop i ?fr') = take m (drop (Suc i) fr)"
        using mlen m' by (simp add: di)
      have dn: "drop (n - 1) ?fr' = drop n fr @ ?res"
      proof -
        have "n - 1 = i + m" using m by simp
        then have "drop (n - 1) ?fr' = drop m (drop i ?fr')" by (simp add: add.commute)
        also have "\<dots> = drop m (drop (Suc i) fr) @ ?res" using mlen by (simp add: di)
        also have "drop m (drop (Suc i) fr) = drop n fr"
        proof -
          have "m + Suc i = n" using m by simp
          then show ?thesis by (simp only: drop_drop)
        qed
        finally show ?thesis .
      qed
      have "generateNewMaxSpaces_loop r fr i n = generateNewMaxSpaces_loop r ?fr' i (n - 1)"
        using True ov by (subst generateNewMaxSpaces_loop.simps) (simp add: Let_def)
      also have "\<dots> = take i ?fr'
          @ filter (\<lambda>f. \<not> Bin_isOverlapping f r) (take (n - 1 - i) (drop i ?fr')) @ drop (n - 1) ?fr'
          @ concat (map (residualSpaces r)
              (filter (\<lambda>f. Bin_isOverlapping f r) (take (n - 1 - i) (drop i ?fr'))))"
        using "1.IH"(2) [OF True refl _ i_le len] ov by simp
      finally show ?thesis using ov unfolding ti tm dn by (simp add: tk)
    qed
  qed
qed

lemma generateNewMaxSpaces_freeRects:
  "freeRects (generateNewMaxSpaces b r) =
     filter (\<lambda>f. \<not> Bin_isOverlapping f r) (freeRects b)
     @ concat (map (residualSpaces r) (filter (\<lambda>f. Bin_isOverlapping f r) (freeRects b)))"
  by (simp add: generateNewMaxSpaces_def generateNewMaxSpaces_loop_eq)


text \<open>
  Pruning: two spaces that both survive are not contained in one another, since the scan
  of the earlier one reached the later one without a \<open>break\<close> and marked neither.
\<close>

lemma prune_inner_mono: "toRemove \<subseteq> prune_inner i rectI j rest toRemove"
proof (induction rest arbitrary: j toRemove)
  case Nil
  then show ?case by simp
next
  case (Cons rectJ rest)
  have "toRemove \<subseteq> prune_inner i rectI (Suc j) rest (insert j toRemove)"
    using Cons.IH [of "insert j toRemove" "Suc j"] by blast
  with Cons.IH [of toRemove "Suc j"] show ?case by auto
qed

lemma prune_outer_mono: "toRemove \<subseteq> prune_outer i rest toRemove"
proof (induction rest arbitrary: i toRemove)
  case Nil
  then show ?case by simp
next
  case (Cons rectI rest)
  have "toRemove \<subseteq> prune_inner i rectI (Suc i) rest toRemove" by (rule prune_inner_mono)
  also have "\<dots> \<subseteq> prune_outer (Suc i) rest (prune_inner i rectI (Suc i) rest toRemove)"
    by (rule Cons.IH)
  finally show ?case by simp
qed

lemma prune_inner_kept:
  assumes "i \<notin> prune_inner i rectI j rest toRemove" and "k < length rest"
  shows "(isContainedIn (rest ! k) rectI \<longrightarrow> j + k \<in> prune_inner i rectI j rest toRemove)
       \<and> (isContainedIn rectI (rest ! k) \<longrightarrow> isContainedIn (rest ! k) rectI)"
  using assms
proof (induction rest arbitrary: j k toRemove)
  case Nil
  then show ?case by simp
next
  case (Cons rectJ rest)
  show ?case
  proof (cases "isContainedIn rectJ rectI")
    case True
    then have eq: "prune_inner i rectI j (rectJ # rest) toRemove
                 = prune_inner i rectI (Suc j) rest (insert j toRemove)" by simp
    show ?thesis
    proof (cases k)
      case 0
      have "j \<in> prune_inner i rectI (Suc j) rest (insert j toRemove)"
        using prune_inner_mono [of "insert j toRemove" i rectI "Suc j" rest] by blast
      with True 0 eq show ?thesis by simp
    next
      case (Suc k')
      with Cons.prems eq have "i \<notin> prune_inner i rectI (Suc j) rest (insert j toRemove)" "k' < length rest"
        by simp_all
      from Cons.IH [OF this] Suc eq show ?thesis by simp
    qed
  next
    case nJ: False
    show ?thesis
    proof (cases "isContainedIn rectI rectJ")
      case True
      with nJ Cons.prems(1) show ?thesis by simp
    next
      case False
      with nJ have eq: "prune_inner i rectI j (rectJ # rest) toRemove
                 = prune_inner i rectI (Suc j) rest toRemove" by simp
      show ?thesis
      proof (cases k)
        case 0
        with nJ False show ?thesis by simp
      next
        case (Suc k')
        with Cons.prems eq have "i \<notin> prune_inner i rectI (Suc j) rest toRemove" "k' < length rest"
          by simp_all
        from Cons.IH [OF this] Suc eq show ?thesis by simp
      qed
    qed
  qed
qed

lemma prune_outer_kept:
  assumes "a < b" "b < length rest"
    and "i + a \<notin> prune_outer i rest toRemove" "i + b \<notin> prune_outer i rest toRemove"
  shows "\<not> isContainedIn (rest ! a) (rest ! b) \<and> \<not> isContainedIn (rest ! b) (rest ! a)"
  using assms
proof (induction rest arbitrary: i a b toRemove)
  case Nil
  then show ?case by simp
next
  case (Cons rectI rest)
  let ?inner = "prune_inner i rectI (Suc i) rest toRemove"
  let ?out = "prune_outer (Suc i) rest ?inner"
  have out: "prune_outer i (rectI # rest) toRemove = ?out" by simp
  from Cons.prems(1) obtain b' where b': "b = Suc b'" by (cases b) auto
  with Cons.prems(2) have b'l: "b' < length rest" by simp
  show ?case
  proof (cases a)
    case 0
    from Cons.prems(3) 0 have "i \<notin> ?out" by simp
    then have ni: "i \<notin> ?inner" using prune_outer_mono [of ?inner "Suc i" rest] by blast
    from prune_inner_kept [OF ni b'l]
    have 1: "isContainedIn (rest ! b') rectI \<longrightarrow> Suc i + b' \<in> ?inner"
      and 2: "isContainedIn rectI (rest ! b') \<longrightarrow> isContainedIn (rest ! b') rectI" by blast+
    from Cons.prems(4) b' have "Suc i + b' \<notin> ?out" by simp
    then have "Suc i + b' \<notin> ?inner" using prune_outer_mono [of ?inner "Suc i" rest] by blast
    with 1 2 have "\<not> isContainedIn (rest ! b') rectI \<and> \<not> isContainedIn rectI (rest ! b')" by blast
    with 0 b' show ?thesis by simp
  next
    case (Suc a')
    with Cons.prems b' have "a' < b'" "b' < length rest"
      "Suc i + a' \<notin> ?out" "Suc i + b' \<notin> ?out" by simp_all
    from Cons.IH [OF this] Suc b' show ?thesis by simp
  qed
qed

lemma pruneMaxSpaces_result:
  assumes "pruneMaxSpaces b = Inr b'"
  shows "set (freeRects b') \<subseteq> set (freeRects b)"
    and "\<forall>i < length (freeRects b'). \<forall>j < length (freeRects b').
           i \<noteq> j \<longrightarrow> \<not> isContainedIn (freeRects b' ! i) (freeRects b' ! j)"
    and "packedRects b' = packedRects b" "binWidth b' = binWidth b" "binHeight b' = binHeight b"
    and "canRotate b' = canRotate b" "occupiedArea b' = occupiedArea b"
proof -
  let ?fr = "freeRects b"
  let ?tr = "prune_outer 0 ?fr {}"
  let ?idx = "filter (\<lambda>i. i \<notin> ?tr) [0 ..< length ?fr]"
  from assms have b': "b' = b\<lparr> freeRects := map (\<lambda>i. ?fr ! i) ?idx \<rparr>"
    by (auto simp: pruneMaxSpaces_def Let_def split: if_splits sum.splits)
  then have fr': "freeRects b' = map (\<lambda>i. ?fr ! i) ?idx" by simp
  show "set (freeRects b') \<subseteq> set ?fr" unfolding fr' by auto
  show "packedRects b' = packedRects b" "binWidth b' = binWidth b" "binHeight b' = binHeight b"
    "canRotate b' = canRotate b" "occupiedArea b' = occupiedArea b"
    using b' by simp_all
  have sorted: "sorted_wrt (<) ?idx" by (simp add: sorted_wrt_filter)
  have inidx: "?idx ! k < length ?fr \<and> ?idx ! k \<notin> ?tr" if "k < length ?idx" for k
  proof -
    from that have "?idx ! k \<in> set ?idx" by (rule nth_mem)
    then show ?thesis by simp
  qed
  have pair: "\<not> isContainedIn (?fr ! (?idx ! i)) (?fr ! (?idx ! j))
              \<and> \<not> isContainedIn (?fr ! (?idx ! j)) (?fr ! (?idx ! i))"
    if "i < j" "j < length ?idx" for i j
  proof -
    from that have "?idx ! i < ?idx ! j" using sorted by (simp add: sorted_wrt_nth_less)
    moreover from that inidx [of i] inidx [of j]
    have "?idx ! j < length ?fr" "0 + ?idx ! i \<notin> ?tr" "0 + ?idx ! j \<notin> ?tr" by simp_all
    ultimately show ?thesis by (rule prune_outer_kept)
  qed
  show "\<forall>i < length (freeRects b'). \<forall>j < length (freeRects b').
           i \<noteq> j \<longrightarrow> \<not> isContainedIn (freeRects b' ! i) (freeRects b' ! j)"
  proof (intro allI impI)
    fix i j
    assume ij: "i < length (freeRects b')" "j < length (freeRects b')" "i \<noteq> j"
    then have l: "i < length ?idx" "j < length ?idx" by (simp_all add: fr')
    from ij(3) consider "i < j" | "j < i" by linarith
    then have "\<not> isContainedIn (?fr ! (?idx ! i)) (?fr ! (?idx ! j))"
      using pair [of i j] pair [of j i] l by cases blast+
    then show "\<not> isContainedIn (freeRects b' ! i) (freeRects b' ! j)"
      using l by (simp add: fr')
  qed
qed


text \<open>What a successful insert does to the bin.\<close>

lemma insert_bin_True:
  assumes "insert_bin b r h = Inr (True, b'')"
  shows "\<exists>newRect b0.
           pruneMaxSpaces (generateNewMaxSpaces (packRect b0 newRect) newRect) = Inr b''
           \<and> freeRects b0 = freeRects b \<and> packedRects b0 = packedRects b
           \<and> binWidth b0 = binWidth b \<and> binHeight b0 = binHeight b
           \<and> canRotate b0 = canRotate b \<and> occupiedArea b0 = occupiedArea b
           \<and> (if isReadyForPacking r then newRect = r
               else fst (evaluatePacking b r h) = Inr (Some newRect))"
proof (cases "isReadyForPacking r")
  case True
  with assms have "pruneMaxSpaces (generateNewMaxSpaces (packRect b r) r) = Inr b''"
    by (auto simp: insert_bin_def split: sum.splits)
  with True show ?thesis by (intro exI [of _ r] exI [of _ b]) simp
next
  case False
  obtain res b0 where ev: "evaluatePacking b r h = (res, b0)" by (cases "evaluatePacking b r h") auto
  then have b0: "b0 = b\<lparr> packHeur := (if packHeur b = None then h else packHeur b) \<rparr>"
    using evaluatePacking_bin [of b r h] by simp
  from assms False ev obtain newRect where
    res: "res = Inr (Some newRect)"
    and pr: "pruneMaxSpaces (generateNewMaxSpaces (packRect b0 newRect) newRect) = Inr b''"
    by (auto simp: insert_bin_def split: sum.splits option.splits)
  from False ev res pr b0 show ?thesis
    by (intro exI [of _ newRect] exI [of _ b0]) simp
qed

lemma insert_bin_step:
  assumes "insert_bin b r h = Inr (True, b'')"
  shows "\<exists>newRect.
           packedRects b'' = packedRects b @ [newRect]
           \<and> binWidth b'' = binWidth b \<and> binHeight b'' = binHeight b
           \<and> canRotate b'' = canRotate b
           \<and> occupiedArea b'' = occupiedArea b + width newRect * height newRect
           \<and> (\<forall>f \<in> set (freeRects b'').
                 \<not> Bin_isOverlapping f newRect \<and> (\<exists>g \<in> set (freeRects b). isContainedIn f g))
           \<and> (\<forall>i < length (freeRects b''). \<forall>j < length (freeRects b'').
                 i \<noteq> j \<longrightarrow> \<not> isContainedIn (freeRects b'' ! i) (freeRects b'' ! j))
           \<and> (if isReadyForPacking r then newRect = r
               else fst (evaluatePacking b r h) = Inr (Some newRect))"
proof -
  from insert_bin_True [OF assms] obtain newRect b0 where
    pr: "pruneMaxSpaces (generateNewMaxSpaces (packRect b0 newRect) newRect) = Inr b''"
    and same: "freeRects b0 = freeRects b" "packedRects b0 = packedRects b"
      "binWidth b0 = binWidth b" "binHeight b0 = binHeight b"
      "canRotate b0 = canRotate b" "occupiedArea b0 = occupiedArea b"
    and nr: "if isReadyForPacking r then newRect = r
             else fst (evaluatePacking b r h) = Inr (Some newRect)"
    by blast
  let ?g = "generateNewMaxSpaces (packRect b0 newRect) newRect"
  have gfields: "packedRects ?g = packedRects b @ [newRect]" "binWidth ?g = binWidth b"
    "binHeight ?g = binHeight b" "canRotate ?g = canRotate b"
    "occupiedArea ?g = occupiedArea b + width newRect * height newRect"
    using same by (simp_all add: generateNewMaxSpaces_def packRect_def)
  have gfree: "freeRects ?g =
     filter (\<lambda>f. \<not> Bin_isOverlapping f newRect) (freeRects b)
     @ concat (map (residualSpaces newRect) (filter (\<lambda>f. Bin_isOverlapping f newRect) (freeRects b)))"
    using same by (simp add: generateNewMaxSpaces_freeRects packRect_def)
  have refl: "isContainedIn f f" for f by (simp add: isContainedIn_def)
  have gprop: "\<not> Bin_isOverlapping f newRect \<and> (\<exists>g \<in> set (freeRects b). isContainedIn f g)"
    if "f \<in> set (freeRects ?g)" for f
  proof -
    from that consider "f \<in> set (freeRects b)" "\<not> Bin_isOverlapping f newRect"
      | g where "g \<in> set (freeRects b)" "f \<in> set (residualSpaces newRect g)"
      unfolding gfree by auto
    then show ?thesis
    proof cases
      case 1
      then show ?thesis using refl by blast
    next
      case 2
      with residualSpaces_contained [OF 2(2)] show ?thesis by blast
    qed
  qed
  note p = pruneMaxSpaces_result [OF pr]
  from p(1) gprop have "\<forall>f \<in> set (freeRects b'').
      \<not> Bin_isOverlapping f newRect \<and> (\<exists>g \<in> set (freeRects b). isContainedIn f g)"
    by blast
  with p(2-7) gfields nr show ?thesis
    by (intro exI [of _ newRect]) simp
qed

lemma isContainedIn_insideBin: "isContainedIn f g \<Longrightarrow> insideBin b g \<Longrightarrow> insideBin b f"
  by (auto simp: isContainedIn_def insideBin_def)

lemma isContainedIn_interiors: "isContainedIn f g \<Longrightarrow> interiors_intersect f p \<Longrightarrow> interiors_intersect g p"
  by (auto simp: isContainedIn_def interiors_intersect_def)

lemma interiors_intersect_overlapping: "interiors_intersect f p \<Longrightarrow> Bin_isOverlapping f p"
  by (auto simp: interiors_intersect_def Bin_isOverlapping_def Let_def)

lemma freeSpaceInvariant_setup: "freeSpaceInvariant (bin_setup b)"
  by (simp add: freeSpaceInvariant_def bin_setup_def setupFreeRects_def insideBin_def Rect_def)

lemma freeSpaceInvariant_insert:
  assumes "freeSpaceInvariant b" and "insert_bin b r h = Inr (True, b')"
  shows "freeSpaceInvariant b'"
proof -
  from insert_bin_step [OF assms(2)] obtain newRect where
    packed: "packedRects b' = packedRects b @ [newRect]"
    and dims: "binWidth b' = binWidth b" "binHeight b' = binHeight b"
    and free: "\<forall>f \<in> set (freeRects b').
                 \<not> Bin_isOverlapping f newRect \<and> (\<exists>g \<in> set (freeRects b). isContainedIn f g)"
    and maximal: "\<forall>i < length (freeRects b'). \<forall>j < length (freeRects b').
                 i \<noteq> j \<longrightarrow> \<not> isContainedIn (freeRects b' ! i) (freeRects b' ! j)"
    by blast
  from assms(1) have
    inside: "\<forall>g \<in> set (freeRects b). insideBin b g"
    and disjoint: "\<forall>g \<in> set (freeRects b). \<forall>p \<in> set (packedRects b). \<not> interiors_intersect g p"
    by (simp_all add: freeSpaceInvariant_def)
  have 1: "insideBin b' f" if "f \<in> set (freeRects b')" for f
  proof -
    from free that obtain g where "g \<in> set (freeRects b)" "isContainedIn f g" by blast
    with inside have "insideBin b f" using isContainedIn_insideBin by blast
    then show ?thesis by (simp add: insideBin_def dims)
  qed
  have 2: "\<not> interiors_intersect f p" if "f \<in> set (freeRects b')" "p \<in> set (packedRects b')" for f p
  proof (cases "p = newRect")
    case True
    from free that(1) have "\<not> Bin_isOverlapping f newRect" by blast
    with True show ?thesis using interiors_intersect_overlapping by blast
  next
    case False
    with that(2) packed have p: "p \<in> set (packedRects b)" by simp
    from free that(1) obtain g where g: "g \<in> set (freeRects b)" "isContainedIn f g" by blast
    with disjoint p have "\<not> interiors_intersect g p" by blast
    with g(2) show ?thesis using isContainedIn_interiors by blast
  qed
  from 1 2 maximal show ?thesis by (simp add: freeSpaceInvariant_def)
qed

lemma freeSpaceInvariant_insertSeq:
  "freeSpaceInvariant b \<Longrightarrow> insertSeq b ops = Some b' \<Longrightarrow> freeSpaceInvariant b'"
proof (induction ops arbitrary: b)
  case Nil
  then show ?case by simp
next
  case (Cons op ops)
  obtain r h where op: "op = (r, h)" by (cases op) auto
  from Cons.prems(2) op obtain b1 where
    ins: "insert_bin b r h = Inr (True, b1)" and rest: "insertSeq b1 ops = Some b'"
    by (auto split: sum.splits if_splits)
  from freeSpaceInvariant_insert [OF Cons.prems(1) ins] rest show ?case by (rule Cons.IH)
qed

text \<open>
  Claim C3. For every sequence of successful inserts starting from a freshly set-up bin,
  the free-space set of the resulting bin, and so of the bin after each insert of the
  sequence, satisfies: every free space lies entirely inside the bin, no free space
  overlaps the interior of a packed item, and no free space is contained in, or equal to,
  another free space of the set.
\<close>

theorem C3_freeSpaceInvariant:
  assumes "insertSeq (bin_setup b0) ops = Some b"
  shows "freeSpaceInvariant b"
  using freeSpaceInvariant_setup assms by (rule freeSpaceInvariant_insertSeq)

theorem C3_freeSpaceInvariant_witness:
  "insertSeq (bin_setup (MaxSpaceBin 10 10))
     [(Rect 6 4, Some BestAreaFit), (Rect 4 6, Some TouchingPerimeter),
      (Rect 5 5, Some TopRightCornerDistance)] = Some three_items_bin
   \<and> freeSpaceInvariant three_items_bin"
proof -
  have s: "insertSeq (bin_setup (MaxSpaceBin 10 10))
     [(Rect 6 4, Some BestAreaFit), (Rect 4 6, Some TouchingPerimeter),
      (Rect 5 5, Some TopRightCornerDistance)] = Some three_items_bin"
    by code_simp
  from C3_freeSpaceInvariant [OF s] s show ?thesis by simp
qed

section \<open>Packing a sequence of items\<close>
























lemma removePackingInfo_dims [simp]:
  "width (removePackingInfo r) = width r" "height (removePackingInfo r) = height r"
  by (simp_all add: removePackingInfo_def)












section \<open>Comparing numbers\<close>

text \<open>
  The comparison of the symbolic numbers is the comparison of the reals they stand for,
  with \<open>float('inf')\<close> above every finite value.
\<close>

lemma of_int_sqrt_square:
  assumes "0 \<le> i"
  shows "real_of_int i = sqrt (real_of_int (i * i))"
proof -
  have "sqrt (real_of_int (i * i)) = sqrt (real_of_int i * real_of_int i)"
    by (simp only: of_int_mult)
  also have "\<dots> = \<bar>real_of_int i\<bar>" by (rule real_sqrt_abs2)
  also have "\<dots> = real_of_int i" using assms by (simp only: abs_of_nonneg of_int_0_le_iff)
  finally show ?thesis by (rule sym)
qed

lemma int_less_sqrt: "0 \<le> n \<Longrightarrow> real_of_int i < sqrt (real_of_int n) \<longleftrightarrow> i < 0 \<or> i * i < n"
proof (cases "i < 0")
  case True
  assume "0 \<le> n"
  have "0 \<le> sqrt (real_of_int n)" using \<open>0 \<le> n\<close> by simp
  moreover from True have "real_of_int i < 0" by simp
  ultimately show ?thesis using True by linarith
next
  case False
  then have "0 \<le> i" by simp
  then have "real_of_int i = sqrt (real_of_int (i * i))" by (rule of_int_sqrt_square)
  then have "real_of_int i < sqrt (real_of_int n) \<longleftrightarrow> real_of_int (i * i) < real_of_int n"
    by (metis real_sqrt_less_iff)
  with False show ?thesis by (simp only: of_int_less_iff) simp
qed

lemma sqrt_less_int: "0 \<le> n \<Longrightarrow> sqrt (real_of_int n) < real_of_int i \<longleftrightarrow> 0 < i \<and> n < i * i"
proof (cases "0 < i")
  case False
  assume "0 \<le> n"
  have "0 \<le> sqrt (real_of_int n)" using \<open>0 \<le> n\<close> by simp
  moreover from False have "real_of_int i \<le> 0" by simp
  ultimately show ?thesis using False by linarith
next
  case True
  then have "0 \<le> i" by simp
  then have "real_of_int i = sqrt (real_of_int (i * i))" by (rule of_int_sqrt_square)
  then have "sqrt (real_of_int n) < real_of_int i \<longleftrightarrow> real_of_int n < real_of_int (i * i)"
    by (metis real_sqrt_less_iff)
  with True show ?thesis by (simp only: of_int_less_iff) simp
qed

lemma num_less_val:
  assumes "num_val a = Some x" "num_val b = Some y" "radicand_ok a" "radicand_ok b"
  shows "num_less a b \<longleftrightarrow> x < y"
proof (cases a)
  case (IntNum i)
  show ?thesis
  proof (cases b)
    case (IntNum j) with \<open>a = IntNum i\<close> assms show ?thesis by auto
  next
    case (Sqrt n) with \<open>a = IntNum i\<close> assms int_less_sqrt [of n i] show ?thesis by auto
  next
    case (NegSqrt n)
    with \<open>a = IntNum i\<close> assms sqrt_less_int [of n "- i"] show ?thesis by auto
  next
    case PInf with assms show ?thesis by simp
  qed
next
  case (Sqrt m)
  show ?thesis
  proof (cases b)
    case (IntNum j) with Sqrt assms sqrt_less_int [of m j] show ?thesis by auto
  next
    case (Sqrt n) with \<open>a = Sqrt m\<close> assms show ?thesis by auto
  next
    case (NegSqrt n)
    with Sqrt assms have "0 \<le> m" "0 \<le> n" by simp_all
    then have "0 \<le> sqrt (real_of_int m)" "0 \<le> sqrt (real_of_int n)" by simp_all
    then have "\<not> sqrt (real_of_int m) < - sqrt (real_of_int n)" by linarith
    with NegSqrt Sqrt assms show ?thesis by auto
  next
    case PInf with assms show ?thesis by simp
  qed
next
  case (NegSqrt m)
  show ?thesis
  proof (cases b)
    case (IntNum j)
    with NegSqrt assms int_less_sqrt [of m "- j"] show ?thesis by auto
  next
    case (Sqrt n)
    with NegSqrt assms have "0 \<le> m" "0 \<le> n" by simp_all
    then have "- sqrt (real_of_int m) < sqrt (real_of_int n) \<longleftrightarrow> 0 < m \<or> 0 < n"
    proof (cases "0 < m \<or> 0 < n")
      case True
      then have "0 < sqrt (real_of_int m) \<or> 0 < sqrt (real_of_int n)" by simp
      moreover have "0 \<le> sqrt (real_of_int m)" "0 \<le> sqrt (real_of_int n)"
        using \<open>0 \<le> m\<close> \<open>0 \<le> n\<close> by simp_all
      ultimately have "- sqrt (real_of_int m) < sqrt (real_of_int n)" by linarith
      with True show ?thesis by simp
    next
      case False
      with \<open>0 \<le> m\<close> \<open>0 \<le> n\<close> have "m = 0" "n = 0" by simp_all
      with False show ?thesis by simp
    qed
    with NegSqrt Sqrt assms show ?thesis by auto
  next
    case (NegSqrt n) with \<open>a = NegSqrt m\<close> assms show ?thesis by auto
  next
    case PInf with assms show ?thesis by simp
  qed
next
  case PInf
  with assms show ?thesis by simp
qed

lemma num_less_PInf: "num_less a PInf \<longleftrightarrow> a \<noteq> PInf" "\<not> num_less PInf b"
  by (cases a) simp_all

end
